theory Spec2Isabelle
  imports Main
begin

section \<open>The order handler of server.js\<close>

text \<open>
  The development embeds the request handler \<^verbatim>\<open>POST /api/orders\<close> of
  \<^verbatim>\<open>src/server.js\<close> (lines 93-152). The MongoDB collections are lists of documents, in
  the order in which the server hands them out; the handler takes the database and
  returns its response together with the database it leaves behind.
\<close>

subsection \<open>JavaScript numbers, as far as the handler uses them\<close>

text \<open>
  Inventories, prices and counts are integers; the one special value the handler can
  produce is \<^verbatim>\<open>NaN\<close>: \<^verbatim>\<open>lessonCountMap[key]\<close> is \<^verbatim>\<open>undefined\<close> for a key that is
  not in the map, \<^verbatim>\<open>-undefined\<close> is \<^verbatim>\<open>NaN\<close>, and every comparison with \<^verbatim>\<open>NaN\<close> or
  \<^verbatim>\<open>undefined\<close> is false.
\<close>

datatype number = Num int | NaN

fun js_less :: "number \<Rightarrow> number \<Rightarrow> bool" where
  "js_less (Num a) (Num b) = (a < b)"
| "js_less _ _ = False"

fun js_plus :: "number \<Rightarrow> number \<Rightarrow> number" where
  "js_plus (Num a) (Num b) = Num (a + b)"
| "js_plus _ _ = NaN"

fun js_uminus :: "number \<Rightarrow> number" where
  "js_uminus (Num a) = Num (- a)"
| "js_uminus NaN = NaN"

text \<open>A looked-up count used as a number: \<^verbatim>\<open>undefined\<close> converts to \<^verbatim>\<open>NaN\<close>.\<close>

definition ToNumber :: "nat option \<Rightarrow> number" where
  "ToNumber v = (case v of None \<Rightarrow> NaN | Some n \<Rightarrow> Num (int n))"

subsection \<open>Documents\<close>

text \<open>
  A lesson document. The handler reads its identifier, its title and its available
  inventory; the location and the price are carried along, and the descriptive fields
  \<^verbatim>\<open>description\<close>, \<^verbatim>\<open>continent\<close> and \<^verbatim>\<open>image\<close> are left out. The type \<open>'o\<close> is
  the driver's \<^verbatim>\<open>ObjectId\<close>.
\<close>

record 'o lesson =
  lesson_id :: 'o
  title :: string
  location :: string
  price :: number
  availableInventory :: number

text \<open>
  The body of \<^verbatim>\<open>POST /api/orders\<close>. A field that is absent (or \<^verbatim>\<open>null\<close>) is
  \<open>None\<close>. The customer fields are strings, \<^verbatim>\<open>lessonIDs\<close> is an array of strings and
  \<^verbatim>\<open>numberOfSpaces\<close> is a number.
\<close>

record request =
  name :: "string option"
  phoneNumber :: "string option"
  address :: "string option"
  city :: "string option"
  state :: "string option"
  zip_code :: "string option"
  lessonIDs :: "string list option"
  numberOfSpaces :: "int option"

text \<open>
  The order document of lines 130-141 (\<^verbatim>\<open>createdAt\<close>, the clock's value, is left
  out: nothing reads it).
\<close>

record 'o order =
  order_name :: string
  order_phoneNumber :: string
  order_address :: string
  order_city :: string
  order_state :: string
  order_zip :: string
  order_lessonIDs :: "'o list"
  order_lessonNames :: "string list"
  order_numberOfSpaces :: int

record 'o database =
  lessonsCollection :: "'o lesson list"
  ordersCollection :: "'o order list"

text \<open>
  The four responses of the handler: 200 with the position of the inserted order
  standing for \<^verbatim>\<open>insertedId\<close>; 400 "All fields are required."; 400 "Not enough
  spaces for ..." with the title, the needed and the available count of the message;
  500 from the \<^verbatim>\<open>catch\<close> block.
\<close>

datatype response =
  OrderSaved nat
| AllFieldsRequired
| NotEnoughSpaces string number number
| ServerError

subsection \<open>Validation (line 97)\<close>

text \<open>
  \<^verbatim>\<open>!x\<close> is true for \<^verbatim>\<open>undefined\<close>, \<^verbatim>\<open>null\<close>, the empty string and the number 0; an
  array, also the empty one, is truthy.
\<close>

definition falsy_str :: "string option \<Rightarrow> bool" where
  "falsy_str v = (case v of None \<Rightarrow> True | Some s \<Rightarrow> s = [])"

definition falsy_num :: "int option \<Rightarrow> bool" where
  "falsy_num v = (case v of None \<Rightarrow> True | Some n \<Rightarrow> n = 0)"

definition falsy_arr :: "'a list option \<Rightarrow> bool" where
  "falsy_arr v = (case v of None \<Rightarrow> True | Some xs \<Rightarrow> False)"

definition missingField :: "request \<Rightarrow> bool" where
  "missingField r =
     (falsy_str (name r) \<or> falsy_str (phoneNumber r) \<or> falsy_str (address r) \<or>
      falsy_str (city r) \<or> falsy_str (state r) \<or> falsy_str (zip_code r) \<or>
      falsy_arr (lessonIDs r) \<or> falsy_num (numberOfSpaces r))"

subsection \<open>The count map (lines 102-103)\<close>

text \<open>
  \<^verbatim>\<open>lessonCountMap\<close> is an object used as a dictionary: its keys are kept in the order
  of their first insertion, which is the order \<^verbatim>\<open>Object.keys\<close> lists them in.
  \<^verbatim>\<open>lessonCountMap[id] = (lessonCountMap[id] || 0) + 1\<close> adds the key with count 1 or
  increments its count.
\<close>

type_synonym countMap = "(string \<times> nat) list"

fun countUp :: "countMap \<Rightarrow> string \<Rightarrow> countMap" where
  "countUp [] k = [(k, 1)]"
| "countUp ((k', n) # m) k =
     (if k' = k then (k', Suc n) # m else (k', n) # countUp m k)"

text \<open>
  The map is a plain \<^verbatim>\<open>{}\<close>, so the key \<^verbatim>\<open>__proto__\<close> reaches the accessor of
  \<^verbatim>\<open>Object.prototype\<close>: assigning a string to it does nothing and no key is added.
  Two more kinds of keys differ from ordinary ones in JavaScript: the names of the
  other properties inherited from \<^verbatim>\<open>Object.prototype\<close>, whose stored value is not a
  number, and decimal numerals (array indices), which \<^verbatim>\<open>Object.keys\<close> lists first. The
  \<^verbatim>\<open>ObjectId\<close> constructor of the driver refuses both kinds, so that a request with such
  a key ends at line 105 with 500 whatever the map holds; they are counted here like
  any other key.
\<close>

definition lessonCount :: "countMap \<Rightarrow> string \<Rightarrow> countMap" where
  "lessonCount m k = (if k = ''__proto__'' then m else countUp m k)"

definition buildCountMap :: "string list \<Rightarrow> countMap" where
  "buildCountMap ids = foldl lessonCount [] ids"

subsection \<open>Object identifiers (line 105)\<close>

text \<open>
  The class \<^verbatim>\<open>ObjectId\<close> belongs to the MongoDB driver, not to this repository. The
  handler uses two of its operations, taken as parameters throughout:
  \<^item> \<open>mk\<close>, the constructor \<^verbatim>\<open>new ObjectId(id)\<close> on a string, \<open>None\<close> when it throws;
  \<^item> \<open>str\<close>, the method \<^verbatim>\<open>toString()\<close>.
  \<^verbatim>\<open>Object.keys(lessonCountMap).map(id => new ObjectId(id))\<close> throws at the first key the
  constructor refuses.
\<close>

fun newObjectIds :: "(string \<Rightarrow> 'o option) \<Rightarrow> string list \<Rightarrow> 'o list option" where
  "newObjectIds mk [] = Some []"
| "newObjectIds mk (k # ks) =
     (case mk k of
        None \<Rightarrow> None
      | Some x \<Rightarrow> (case newObjectIds mk ks of None \<Rightarrow> None | Some xs \<Rightarrow> Some (x # xs)))"

subsection \<open>The collection operations the handler calls\<close>

text \<open>\<^verbatim>\<open>find({ _id: { $in: objectIds } }).toArray()\<close>\<close>

definition find_in :: "'o list \<Rightarrow> 'o lesson list \<Rightarrow> 'o lesson list" where
  "find_in objectIds ls = filter (\<lambda>l. lesson_id l \<in> set objectIds) ls"

text \<open>
  \<^verbatim>\<open>updateOne({ _id: x }, { $inc: { availableInventory: d } })\<close> changes the first
  document with that identifier, and nothing when there is none.
\<close>

fun updateOne_inc :: "'o \<Rightarrow> number \<Rightarrow> 'o lesson list \<Rightarrow> 'o lesson list" where
  "updateOne_inc x d [] = []"
| "updateOne_inc x d (l # ls) =
     (if lesson_id l = x
      then l\<lparr>availableInventory := js_plus (availableInventory l) d\<rparr> # ls
      else l # updateOne_inc x d ls)"

subsection \<open>The three loops over the lessons found (lines 109-128)\<close>

definition needed :: "('o \<Rightarrow> string) \<Rightarrow> countMap \<Rightarrow> 'o lesson \<Rightarrow> nat option" where
  "needed str m l = map_of m (str (lesson_id l))"

text \<open>The availability check: the first lesson with too few spaces ends the request.\<close>

fun checkSpaces ::
  "('o \<Rightarrow> string) \<Rightarrow> countMap \<Rightarrow> 'o lesson list \<Rightarrow> response option" where
  "checkSpaces str m [] = None"
| "checkSpaces str m (l # ls) =
     (if js_less (availableInventory l) (ToNumber (needed str m l))
      then Some (NotEnoughSpaces (title l) (ToNumber (needed str m l)) (availableInventory l))
      else checkSpaces str m ls)"

text \<open>
  The decrements. Every awaited call on a collection can throw (the network, the
  server); \<open>fault = Some i\<close> says that the call number \<open>i\<close> of this request throws,
  counting \<^verbatim>\<open>find\<close> as 0, the \<^verbatim>\<open>updateOne\<close> calls from 1 and \<^verbatim>\<open>insertOne\<close> last.
  A call that throws changes nothing. The result is \<open>(False, _)\<close> when a call threw.
\<close>

fun decrementAll ::
  "('o \<Rightarrow> string) \<Rightarrow> countMap \<Rightarrow> nat option \<Rightarrow> nat \<Rightarrow> 'o lesson list \<Rightarrow>
   'o lesson list \<Rightarrow> bool \<times> 'o lesson list" where
  "decrementAll str m fault i [] store = (True, store)"
| "decrementAll str m fault i (l # ls) store =
     (if fault = Some i then (False, store)
      else decrementAll str m fault (Suc i) ls
             (updateOne_inc (lesson_id l) (js_uminus (ToNumber (needed str m l))) store))"

text \<open>
  The titles: \<^verbatim>\<open>for (let i = 0; i < repeat; i++)\<close> pushes the title \<^verbatim>\<open>repeat\<close> times,
  and not at all when \<^verbatim>\<open>repeat\<close> is \<^verbatim>\<open>undefined\<close>.
\<close>

definition repeatCount :: "nat option \<Rightarrow> nat" where
  "repeatCount v = (case v of None \<Rightarrow> 0 | Some n \<Rightarrow> n)"

fun lessonNames :: "('o \<Rightarrow> string) \<Rightarrow> countMap \<Rightarrow> 'o lesson list \<Rightarrow> string list" where
  "lessonNames str m [] = []"
| "lessonNames str m (l # ls) =
     replicate (repeatCount (needed str m l)) (title l) @ lessonNames str m ls"

subsection \<open>POST /api/orders\<close>

text \<open>
  The order document is built after the validation, when every field of the request is
  present: \<open>the\<close> reads the value of a field that is there.
\<close>

definition makeOrder :: "request \<Rightarrow> 'o list \<Rightarrow> string list \<Rightarrow> 'o order" where
  "makeOrder r objectIds names =
     \<lparr> order_name = the (name r), order_phoneNumber = the (phoneNumber r),
       order_address = the (address r), order_city = the (city r),
       order_state = the (state r), order_zip = the (zip_code r),
       order_lessonIDs = objectIds, order_lessonNames = names,
       order_numberOfSpaces = the (numberOfSpaces r) \<rparr>"

text \<open>
  The part of the handler after validation, for the identifiers \<open>ids\<close> of the request.
\<close>

definition reserveAndRecord ::
  "(string \<Rightarrow> 'o option) \<Rightarrow> ('o \<Rightarrow> string) \<Rightarrow> nat option \<Rightarrow> 'o database \<Rightarrow> request \<Rightarrow>
   string list \<Rightarrow> response \<times> 'o database" where
  "reserveAndRecord mk str fault db r ids =
     (let m = buildCountMap ids in
      case newObjectIds mk (map fst m) of
        None \<Rightarrow> (ServerError, db)
      | Some objectIds \<Rightarrow>
          if fault = Some 0 then (ServerError, db)
          else
            let lessons = find_in objectIds (lessonsCollection db) in
            case checkSpaces str m lessons of
              Some refusal \<Rightarrow> (refusal, db)
            | None \<Rightarrow>
                (case decrementAll str m fault 1 lessons (lessonsCollection db) of
                   (False, store) \<Rightarrow> (ServerError, db\<lparr>lessonsCollection := store\<rparr>)
                 | (True, store) \<Rightarrow>
                     if fault = Some (Suc (length lessons))
                     then (ServerError, db\<lparr>lessonsCollection := store\<rparr>)
                     else
                       (OrderSaved (length (ordersCollection db)),
                        db\<lparr>lessonsCollection := store,
                           ordersCollection := ordersCollection db @
                             [makeOrder r objectIds (lessonNames str m lessons)]\<rparr>)))"

definition placeOrder ::
  "(string \<Rightarrow> 'o option) \<Rightarrow> ('o \<Rightarrow> string) \<Rightarrow> nat option \<Rightarrow> 'o database \<Rightarrow> request \<Rightarrow>
   response \<times> 'o database" where
  "placeOrder mk str fault db r =
     (if missingField r then (AllFieldsRequired, db)
      else case lessonIDs r of
             None \<Rightarrow> (AllFieldsRequired, db)
           | Some ids \<Rightarrow> reserveAndRecord mk str fault db r ids)"

subsection \<open>Several requests\<close>

text \<open>Requests served one after the other, each with its own fault.\<close>

fun placeOrders ::
  "(string \<Rightarrow> 'o option) \<Rightarrow> ('o \<Rightarrow> string) \<Rightarrow> 'o database \<Rightarrow> (nat option \<times> request) list \<Rightarrow>
   response list \<times> 'o database" where
  "placeOrders mk str db [] = ([], db)"
| "placeOrders mk str db ((fault, r) # rs) =
     (case placeOrder mk str fault db r of
        (resp, db') \<Rightarrow>
          (case placeOrders mk str db' rs of (resps, db'') \<Rightarrow> (resp # resps, db'')))"

text \<open>
  Requests served concurrently. The handler is an \<^verbatim>\<open>async\<close> function on a single
  thread: between two \<^verbatim>\<open>await\<close>s it runs alone, and at each \<^verbatim>\<open>await\<close> of a collection
  call other requests may run. A request in flight is therefore in one of three
  places: not started; past \<^verbatim>\<open>find\<close> and the availability check, holding the lessons
  it read and those it has still to decrement; answered. One step performs one call on
  a collection: \<^verbatim>\<open>find\<close> (with the validation before it and the check after it), one
  \<^verbatim>\<open>updateOne\<close>, or \<^verbatim>\<open>insertOne\<close>. No call throws in this model.
\<close>

datatype 'o task =
  Start request
| Updating request countMap "'o list" "'o lesson list" "'o lesson list"
| Finished response

definition startTask ::
  "(string \<Rightarrow> 'o option) \<Rightarrow> ('o \<Rightarrow> string) \<Rightarrow> 'o database \<Rightarrow> request \<Rightarrow> 'o task" where
  "startTask mk str db r =
     (if missingField r then Finished AllFieldsRequired
      else case lessonIDs r of
             None \<Rightarrow> Finished AllFieldsRequired
           | Some ids \<Rightarrow>
               (let m = buildCountMap ids in
                case newObjectIds mk (map fst m) of
                  None \<Rightarrow> Finished ServerError
                | Some objectIds \<Rightarrow>
                    let lessons = find_in objectIds (lessonsCollection db) in
                    case checkSpaces str m lessons of
                      Some refusal \<Rightarrow> Finished refusal
                    | None \<Rightarrow> Updating r m objectIds lessons lessons))"

fun step ::
  "(string \<Rightarrow> 'o option) \<Rightarrow> ('o \<Rightarrow> string) \<Rightarrow> 'o database \<Rightarrow> 'o task \<Rightarrow> 'o task \<times> 'o database" where
  "step mk str db (Start r) = (startTask mk str db r, db)"
| "step mk str db (Updating r m objectIds lessons (l # ls)) =
     (Updating r m objectIds lessons ls,
      db\<lparr>lessonsCollection :=
           updateOne_inc (lesson_id l) (js_uminus (ToNumber (needed str m l)))
             (lessonsCollection db)\<rparr>)"
| "step mk str db (Updating r m objectIds lessons []) =
     (Finished (OrderSaved (length (ordersCollection db))),
      db\<lparr>ordersCollection := ordersCollection db @
           [makeOrder r objectIds (lessonNames str m lessons)]\<rparr>)"
| "step mk str db (Finished resp) = (Finished resp, db)"

text \<open>
  A schedule names, step by step, the request that moves next; a number that is no
  request's is skipped.
\<close>

fun interleave ::
  "(string \<Rightarrow> 'o option) \<Rightarrow> ('o \<Rightarrow> string) \<Rightarrow> nat list \<Rightarrow> 'o task list \<Rightarrow> 'o database \<Rightarrow>
   'o task list \<times> 'o database" where
  "interleave mk str [] ts db = (ts, db)"
| "interleave mk str (i # sched) ts db =
     (if i < length ts
      then (case step mk str db (ts ! i) of
              (t', db') \<Rightarrow> interleave mk str sched (ts[i := t']) db')
      else interleave mk str sched ts db)"

text \<open>
  The units a request holds of the lesson \<open>x\<close> once it is answered with success: the
  number of times the identifier of \<open>x\<close> stands in its \<^verbatim>\<open>lessonIDs\<close>.
\<close>

definition unitsOf :: "('o \<Rightarrow> string) \<Rightarrow> 'o \<Rightarrow> request \<Rightarrow> nat" where
  "unitsOf str x r = (case lessonIDs r of None \<Rightarrow> 0 | Some ids \<Rightarrow> count_list ids (str x))"

fun isSaved :: "response \<Rightarrow> bool" where
  "isSaved (OrderSaved n) = True"
| "isSaved _ = False"

fun reservedUnits :: "('o \<Rightarrow> string) \<Rightarrow> 'o \<Rightarrow> (response \<times> request) list \<Rightarrow> nat" where
  "reservedUnits str x [] = 0"
| "reservedUnits str x ((resp, r) # rest) =
     (if isSaved resp then unitsOf str x r else 0) + reservedUnits str x rest"

subsection \<open>An ObjectId class to evaluate with\<close>

text \<open>
  For evaluation on concrete requests: identifiers are strings of 24 hexadecimal
  digits, the constructor refuses every other string, and \<^verbatim>\<open>toString()\<close> prints the
  digits in lower case.
\<close>

definition isHexDigit :: "char \<Rightarrow> bool" where
  "isHexDigit c = (c \<in> set ''0123456789abcdefABCDEF'')"

definition lowerHex :: "char \<Rightarrow> char" where
  "lowerHex c =
     (if c = CHR ''A'' then CHR ''a'' else if c = CHR ''B'' then CHR ''b''
      else if c = CHR ''C'' then CHR ''c'' else if c = CHR ''D'' then CHR ''d''
      else if c = CHR ''E'' then CHR ''e'' else if c = CHR ''F'' then CHR ''f'' else c)"

definition hexObjectId :: "string \<Rightarrow> string option" where
  "hexObjectId s =
     (if length s = 24 \<and> list_all isHexDigit s then Some (map lowerHex s) else None)"

definition hexString :: "string \<Rightarrow> string" where
  "hexString x = x"

text \<open>Identifiers, a catalogue and a customer for the examples.\<close>

definition idA :: string where "idA = ''65a1f0c2d3e4b5a6978800a1''"
definition idB :: string where "idB = ''65a1f0c2d3e4b5a6978800b2''"
definition idF :: string where "idF = ''65a1f0c2d3e4b5a6978800f6''"
definition idX :: string where "idX = ''65a1f0c2d3e4b5a697880999''"

text \<open>The identifier of B as a client may just as well spell it, in upper case.\<close>

definition idB_upper :: string where "idB_upper = ''65A1F0C2D3E4B5A6978800B2''"

definition lessonA :: "string lesson" where
  "lessonA = \<lparr> lesson_id = idA, title = ''French'', location = ''PARIS'',
               price = Num 1800, availableInventory = Num 5 \<rparr>"

definition lessonB :: "string lesson" where
  "lessonB = \<lparr> lesson_id = idB, title = ''Spanish'', location = ''MADRID'',
               price = Num 1800, availableInventory = Num 2 \<rparr>"

definition lessonF :: "string lesson" where
  "lessonF = \<lparr> lesson_id = idF, title = ''Chinese'', location = ''HONG-KONG'',
               price = Num 1800, availableInventory = Num 5 \<rparr>"

definition catalogue :: "string database" where
  "catalogue = \<lparr> lessonsCollection = [lessonA, lessonB, lessonF], ordersCollection = [] \<rparr>"

definition customer :: "string list \<Rightarrow> int \<Rightarrow> request" where
  "customer ids n =
     \<lparr> name = Some ''Ada'', phoneNumber = Some ''0123456789'', address = Some ''1 High St'',
       city = Some ''London'', state = Some ''LDN'', zip_code = Some ''N1'',
       lessonIDs = Some ids, numberOfSpaces = Some n \<rparr>"

subsection \<open>Reading a lesson's inventory\<close>

text \<open>The \<^verbatim>\<open>availableInventory\<close> of the lesson with identifier \<open>x\<close>, if there is one.\<close>

definition inventoryOf :: "'o \<Rightarrow> 'o lesson list \<Rightarrow> number option" where
  "inventoryOf x ls = map_of (map (\<lambda>l. (lesson_id l, availableInventory l)) ls) x"

section \<open>Facts about the count map and the identifiers\<close>

lemma countUp_keys:
  "map fst (countUp m k) = (if k \<in> fst ` set m then map fst m else map fst m @ [k])"
  by (induction m k rule: countUp.induct) auto

lemma countUp_map_of:
  "map_of (countUp m k) = (map_of m)(k \<mapsto> Suc (repeatCount (map_of m k)))"
  by (induction m k rule: countUp.induct) (auto simp: repeatCount_def fun_eq_iff)

lemma buildCountMap_snoc:
  "buildCountMap (ids @ [k]) = lessonCount (buildCountMap ids) k"
  by (simp add: buildCountMap_def)

text \<open>
  The keys of the count map are the identifiers of the request without repetition, in
  the order of their first occurrence.
\<close>

lemma buildCountMap_keys:
  "map fst (buildCountMap ids) = rev (remdups (rev (filter (\<lambda>k. k \<noteq> ''__proto__'') ids)))"
proof (induction ids rule: rev_induct)
  case Nil
  show ?case by (simp add: buildCountMap_def)
next
  case (snoc k ids)
  have keys: "fst ` set (buildCountMap ids) = {j \<in> set ids. j \<noteq> ''__proto__''}"
    using arg_cong [OF snoc.IH, of set] by auto
  show ?case
    using snoc.IH keys
    by (auto simp: buildCountMap_snoc lessonCount_def countUp_keys)
qed

lemma buildCountMap_key_set:
  "fst ` set (buildCountMap ids) = {j \<in> set ids. j \<noteq> ''__proto__''}"
  using arg_cong [OF buildCountMap_keys, of set ids] by auto

text \<open>The count of a key is the number of its occurrences in the request.\<close>

lemma buildCountMap_map_of:
  "map_of (buildCountMap ids) k =
     (if k = ''__proto__'' \<or> k \<notin> set ids then None else Some (count_list ids k))"
proof (induction ids rule: rev_induct)
  case Nil
  show ?case by (simp add: buildCountMap_def)
next
  case (snoc j ids)
  show ?case
    using snoc.IH
    by (auto simp: buildCountMap_snoc lessonCount_def countUp_map_of repeatCount_def)
qed

lemma newObjectIds_None_iff:
  "newObjectIds mk ks = None \<longleftrightarrow> (\<exists>k\<in>set ks. mk k = None)"
  by (induction ks) (auto split: option.splits)

lemma newObjectIds_Some_iff:
  "newObjectIds mk ks = Some xs \<longleftrightarrow>
     (\<forall>k\<in>set ks. mk k \<noteq> None) \<and> xs = map (the \<circ> mk) ks"
  by (induction ks arbitrary: xs) (auto split: option.splits simp: newObjectIds_None_iff)

section \<open>Facts about the collection operations\<close>

lemma checkSpaces_Some:
  "l \<in> set ls \<Longrightarrow> js_less (availableInventory l) (ToNumber (needed str m l)) \<Longrightarrow>
   \<exists>t n a. checkSpaces str m ls = Some (NotEnoughSpaces t n a)"
  by (induction ls) auto

lemma checkSpaces_None_iff:
  "checkSpaces str m ls = None \<longleftrightarrow>
     (\<forall>l\<in>set ls. \<not> js_less (availableInventory l) (ToNumber (needed str m l)))"
  by (induction ls) auto

lemma checkSpaces_refusal:
  "checkSpaces str m ls = Some resp \<Longrightarrow> \<exists>t n a. resp = NotEnoughSpaces t n a"
  by (induction ls) (auto split: if_splits)



lemma customer_valid: "n \<noteq> 0 \<Longrightarrow> \<not> missingField (customer ids n)"
  by (simp add: missingField_def customer_def falsy_str_def falsy_num_def falsy_arr_def)

lemmas example_defs =
  catalogue_def lessonA_def lessonB_def lessonF_def idA_def idB_def idF_def idX_def
  hexObjectId_def hexString_def isHexDigit_def lowerHex_def

lemmas handler_defs =
  placeOrder_def reserveAndRecord_def missingField_def falsy_str_def falsy_num_def
  falsy_arr_def customer_def buildCountMap_def lessonCount_def find_in_def needed_def
  ToNumber_def repeatCount_def makeOrder_def

lemma decrementAll_no_fault: "fst (decrementAll str m None i ls store) = True"
  by (induction ls arbitrary: i store) auto

lemma placeOrder_saved:
  assumes "placeOrder mk str fault db r = (OrderSaved n, db')" and "lessonIDs r = Some ids"
  shows "\<exists>objectIds store.
      newObjectIds mk (map fst (buildCountMap ids)) = Some objectIds \<and>
      checkSpaces str (buildCountMap ids) (find_in objectIds (lessonsCollection db)) = None \<and>
      decrementAll str (buildCountMap ids) fault 1 (find_in objectIds (lessonsCollection db))
        (lessonsCollection db) = (True, store) \<and>
      n = length (ordersCollection db) \<and>
      db' = db\<lparr>lessonsCollection := store,
               ordersCollection := ordersCollection db @
                 [makeOrder r objectIds
                    (lessonNames str (buildCountMap ids)
                       (find_in objectIds (lessonsCollection db)))]\<rparr>"
  using assms
  by (auto simp: placeOrder_def reserveAndRecord_def Let_def
      split: if_splits option.splits prod.splits bool.splits dest: checkSpaces_refusal)



text \<open>Removing an identifier from the request removes its line from the count map.\<close>

lemma countUp_filter_other:
  "j \<noteq> k \<Longrightarrow> countUp (filter (\<lambda>p. fst p \<noteq> k) m) j = filter (\<lambda>p. fst p \<noteq> k) (countUp m j)"
  by (induction m j rule: countUp.induct) auto

lemma countUp_filter_same:
  "filter (\<lambda>p. fst p \<noteq> k) (countUp m k) = filter (\<lambda>p. fst p \<noteq> k) m"
  by (induction m k rule: countUp.induct) auto

lemma buildCountMap_filter:
  "buildCountMap (filter (\<lambda>j. j \<noteq> k) ids) = filter (\<lambda>p. fst p \<noteq> k) (buildCountMap ids)"
proof (induction ids rule: rev_induct)
  case Nil
  show ?case by (simp add: buildCountMap_def)
next
  case (snoc j ids)
  show ?case
    using snoc.IH
    by (simp add: buildCountMap_snoc lessonCount_def countUp_filter_other countUp_filter_same)
qed

lemma map_of_filter_key:
  "map_of (filter (\<lambda>p. fst p \<noteq> k) m) j = (if j = k then None else map_of m j)"
  by (induction m) auto

lemma checkSpaces_cong:
  "(\<And>l. l \<in> set ls \<Longrightarrow> needed str m' l = needed str m l) \<Longrightarrow>
   checkSpaces str m' ls = checkSpaces str m ls"
  by (induction ls) auto

lemma decrementAll_cong:
  "(\<And>l. l \<in> set ls \<Longrightarrow> needed str m' l = needed str m l) \<Longrightarrow>
   decrementAll str m' fault i ls store = decrementAll str m fault i ls store"
  by (induction ls arbitrary: i store) auto

lemma lessonNames_cong:
  "(\<And>l. l \<in> set ls \<Longrightarrow> needed str m' l = needed str m l) \<Longrightarrow>
   lessonNames str m' ls = lessonNames str m ls"
  by (induction ls) auto

lemma reserveAndRecord_unknown:
  assumes obj: "mk k = Some u"
    and absent: "u \<notin> lesson_id ` set (lessonsCollection db)"
    and printed: "\<forall>l\<in>set (lessonsCollection db). str (lesson_id l) \<noteq> k"
  shows "fst (reserveAndRecord mk str fault db r ids) =
           fst (reserveAndRecord mk str fault db r' (filter (\<lambda>j. j \<noteq> k) ids)) \<and>
         lessonsCollection (snd (reserveAndRecord mk str fault db r ids)) =
           lessonsCollection (snd (reserveAndRecord mk str fault db r' (filter (\<lambda>j. j \<noteq> k) ids)))"
proof -
  let ?m = "buildCountMap ids"
  let ?m' = "buildCountMap (filter (\<lambda>j. j \<noteq> k) ids)"
  have m': "?m' = filter (\<lambda>p. fst p \<noteq> k) ?m"
    by (rule buildCountMap_filter)
  have keys': "map fst ?m' = filter (\<lambda>j. j \<noteq> k) (map fst ?m)"
    by (simp add: m' filter_map comp_def)
  have need: "needed str ?m' l = needed str ?m l" if "l \<in> set (lessonsCollection db)" for l
    using printed that by (simp add: needed_def m' map_of_filter_key)
  show ?thesis
  proof (cases "newObjectIds mk (map fst ?m)")
    case None
    then obtain j where "j \<in> set (map fst ?m)" "mk j = None"
      unfolding newObjectIds_None_iff by blast
    moreover from this obj have "j \<noteq> k" by auto
    ultimately have "newObjectIds mk (map fst ?m') = None"
      unfolding newObjectIds_None_iff keys' by auto
    with None show ?thesis
      by (simp add: reserveAndRecord_def)
  next
    case (Some objectIds)
    then have all: "\<forall>j\<in>set (map fst ?m). mk j \<noteq> None"
      and objectIds: "objectIds = map (the \<circ> mk) (map fst ?m)"
      unfolding newObjectIds_Some_iff by auto
    define objectIds' where "objectIds' = map (the \<circ> mk) (map fst ?m')"
    have Some': "newObjectIds mk (map fst ?m') = Some objectIds'"
      unfolding newObjectIds_Some_iff objectIds'_def keys' using all by auto
    have "set objectIds' \<subseteq> set objectIds" "set objectIds \<subseteq> insert u (set objectIds')"
      unfolding objectIds objectIds'_def keys' using obj by auto
    then have "\<And>l. l \<in> set (lessonsCollection db) \<Longrightarrow>
        lesson_id l \<in> set objectIds' \<longleftrightarrow> lesson_id l \<in> set objectIds"
      using absent by auto
    then have found: "find_in objectIds' (lessonsCollection db) = find_in objectIds (lessonsCollection db)"
      unfolding find_in_def by (auto intro: filter_cong)
    let ?ls = "find_in objectIds (lessonsCollection db)"
    have sub: "\<And>l. l \<in> set ?ls \<Longrightarrow> needed str ?m' l = needed str ?m l"
      using need by (simp add: find_in_def)
    have c: "checkSpaces str ?m' ?ls = checkSpaces str ?m ?ls"
      using sub by (rule checkSpaces_cong)
    have d: "decrementAll str ?m' fault i ?ls store = decrementAll str ?m fault i ?ls store"
      for i store
      using sub by (rule decrementAll_cong)
    show ?thesis
      by (simp add: reserveAndRecord_def Let_def Some Some' found c d
          split: option.splits prod.splits bool.splits)
  qed
qed

section \<open>Facts about the inventory of one lesson\<close>

lemma updateOne_inc_ids: "map lesson_id (updateOne_inc y d ls) = map lesson_id ls"
  by (induction ls) auto

lemma inventoryOf_updateOne_inc:
  "inventoryOf x (updateOne_inc y d ls) =
     (if x = y then map_option (\<lambda>v. js_plus v d) (inventoryOf x ls) else inventoryOf x ls)"
  by (induction ls) (auto simp: inventoryOf_def)

lemma inventoryOf_distinct:
  "distinct (map lesson_id ls) \<Longrightarrow> l \<in> set ls \<Longrightarrow>
   inventoryOf (lesson_id l) ls = Some (availableInventory l)"
  unfolding inventoryOf_def
  by (rule map_of_is_SomeI) (auto simp: comp_def)

lemma inventoryOf_Some_member:
  "inventoryOf x ls = Some v \<Longrightarrow> x \<in> lesson_id ` set ls"
  by (induction ls) (auto simp: inventoryOf_def split: if_splits)

lemma decrementAll_ids:
  "map lesson_id (snd (decrementAll str m fault i ls store)) = map lesson_id store"
  by (induction ls arbitrary: i store) (auto simp: updateOne_inc_ids)

text \<open>
  What the decrement loop does to one lesson: nothing, which is what happens when the lesson
  is not among those found or when a call threw first; or the one decrement by its count.
\<close>

lemma decrementAll_inventory:
  assumes "distinct (map lesson_id ls)"
    and "decrementAll str m fault i ls store = (ok, store')"
  shows "(inventoryOf x store' = inventoryOf x store \<and> (ok \<longrightarrow> x \<notin> lesson_id ` set ls)) \<or>
         (x \<in> lesson_id ` set ls \<and>
          inventoryOf x store' =
            map_option (\<lambda>v. js_plus v (js_uminus (ToNumber (map_of m (str x)))))
              (inventoryOf x store))"
  using assms
proof (induction ls arbitrary: i store)
  case Nil
  then show ?case by simp
next
  case (Cons l ls)
  show ?case
  proof (cases "fault = Some i")
    case True
    then show ?thesis using Cons.prems by simp
  next
    case False
    let ?store1 = "updateOne_inc (lesson_id l) (js_uminus (ToNumber (needed str m l))) store"
    have run: "decrementAll str m fault (Suc i) ls ?store1 = (ok, store')"
      using Cons.prems(2) False by simp
    have dist: "distinct (map lesson_id ls)" and fresh: "lesson_id l \<notin> lesson_id ` set ls"
      using Cons.prems(1) by auto
    note IH = Cons.IH [OF dist run]
    show ?thesis
    proof (cases "x = lesson_id l")
      case True
      with fresh have "x \<notin> lesson_id ` set ls" by simp
      with IH have "inventoryOf x store' = inventoryOf x ?store1" by blast
      then show ?thesis
        using True by (simp add: inventoryOf_updateOne_inc needed_def)
    next
      case False
      then have "inventoryOf x ?store1 = inventoryOf x store"
        by (simp add: inventoryOf_updateOne_inc)
      with IH False show ?thesis by auto
    qed
  qed
qed

lemma find_in_distinct:
  "distinct (map lesson_id ls) \<Longrightarrow> distinct (map lesson_id (find_in objectIds ls))"
  by (simp add: find_in_def distinct_map_filter)

lemma reserveAndRecord_inventory:
  assumes uniq: "distinct (map lesson_id (lessonsCollection db))"
    and cap: "inventoryOf x (lessonsCollection db) = Some (Num c)"
    and nonneg: "0 \<le> c"
    and printed: "str x \<noteq> ''__proto__''"
    and canon: "\<forall>k\<in>set ids. (mk k = Some x) = (k = str x)"
    and run: "reserveAndRecord mk str fault db r ids = (resp, db')"
  shows "distinct (map lesson_id (lessonsCollection db')) \<and>
         (\<exists>c'. inventoryOf x (lessonsCollection db') = Some (Num c') \<and> 0 \<le> c' \<and> c' \<le> c \<and>
               (isSaved resp \<longrightarrow> c' = c - int (count_list ids (str x))))"
proof -
  let ?m = "buildCountMap ids"
  let ?goal = ?thesis
  have same: ?goal if "db' = db" "\<not> isSaved resp"
    using that uniq cap nonneg by simp
  show ?thesis
  proof (cases "newObjectIds mk (map fst ?m)")
    case None
    with run have "db' = db" "resp = ServerError"
      by (simp_all add: reserveAndRecord_def)
    then show ?thesis using same by simp
  next
    case (Some objectIds)
    let ?found = "find_in objectIds (lessonsCollection db)"
    have parsed: "\<forall>j\<in>set (map fst ?m). mk j \<noteq> None"
      and objectIds: "objectIds = map (the \<circ> mk) (map fst ?m)"
      using Some unfolding newObjectIds_Some_iff by auto
    have keys: "set (map fst ?m) = {j \<in> set ids. j \<noteq> ''__proto__''}"
      using buildCountMap_key_set [of ids] by simp
    have asked: "str x \<in> set ids" if "x \<in> set objectIds"
    proof -
      from that obtain j where j: "j \<in> set (map fst ?m)" "(the \<circ> mk) j = x"
        unfolding objectIds by auto
      with parsed have "mk j = Some x" by auto
      moreover have "j \<in> set ids" using j(1) keys by auto
      ultimately show ?thesis using canon by auto
    qed
    have unasked: "count_list ids (str x) = 0" if "x \<notin> set objectIds"
    proof (rule ccontr)
      assume "count_list ids (str x) \<noteq> 0"
      then have mem: "str x \<in> set ids" by (simp add: count_list_0_iff)
      with canon have "mk (str x) = Some x" by auto
      moreover have "str x \<in> set (map fst ?m)" using mem printed keys by auto
      ultimately have "x \<in> set objectIds"
        unfolding objectIds by force
      with that show False by simp
    qed
    have member: "x \<in> lesson_id ` set ?found \<longleftrightarrow> x \<in> set objectIds"
      using inventoryOf_Some_member [OF cap] by (auto simp: find_in_def)
    show ?thesis
    proof (cases "fault = Some 0")
      case True
      with run Some have "db' = db" "resp = ServerError"
        by (simp_all add: reserveAndRecord_def)
      then show ?thesis using same by simp
    next
      case read: False
      show ?thesis
      proof (cases "checkSpaces str ?m ?found")
        case (Some refusal)
        with run read \<open>newObjectIds mk (map fst ?m) = Some objectIds\<close>
        have "db' = db" "resp = refusal"
          by (simp_all add: reserveAndRecord_def)
        moreover have "\<not> isSaved refusal"
          using checkSpaces_refusal [OF Some] by auto
        ultimately show ?thesis using same by simp
      next
        case None
        obtain ok store where dec:
          "decrementAll str ?m fault 1 ?found (lessonsCollection db) = (ok, store)"
          by (cases "decrementAll str ?m fault 1 ?found (lessonsCollection db)")
        have store: "lessonsCollection db' = store" and saved: "isSaved resp \<longrightarrow> ok"
          using run read None dec \<open>newObjectIds mk (map fst ?m) = Some objectIds\<close>
          by (auto simp: reserveAndRecord_def Let_def split: if_splits bool.splits)
        have ids: "map lesson_id store = map lesson_id (lessonsCollection db)"
          using decrementAll_ids [of str ?m fault 1 ?found "lessonsCollection db"] dec by simp
        have enough: "int (count_list ids (str x)) \<le> c"
          and line: "map_of ?m (str x) = Some (count_list ids (str x))"
          if "x \<in> set objectIds"
        proof -
          show line: "map_of ?m (str x) = Some (count_list ids (str x))"
            using asked [OF that] printed by (simp add: buildCountMap_map_of)
          from that member obtain l where l: "l \<in> set ?found" "lesson_id l = x" by auto
          then have "l \<in> set (lessonsCollection db)" by (simp add: find_in_def)
          then have "inventoryOf x (lessonsCollection db) = Some (availableInventory l)"
            using inventoryOf_distinct [OF uniq] l(2) by blast
          with cap have "availableInventory l = Num c" by simp
          moreover have "\<not> js_less (availableInventory l) (ToNumber (needed str ?m l))"
            using None l(1) by (simp add: checkSpaces_None_iff)
          ultimately show "int (count_list ids (str x)) \<le> c"
            using line l(2) by (simp add: needed_def ToNumber_def)
        qed
        from decrementAll_inventory [OF find_in_distinct [OF uniq] dec, of x]
        show ?thesis
        proof
          assume a: "inventoryOf x store = inventoryOf x (lessonsCollection db) \<and>
            (ok \<longrightarrow> x \<notin> lesson_id ` set ?found)"
          then have "isSaved resp \<longrightarrow> count_list ids (str x) = 0"
            using saved member unasked by blast
          then show ?thesis
            using a cap nonneg uniq ids by (auto simp: store)
        next
          assume b: "x \<in> lesson_id ` set ?found \<and>
            inventoryOf x store =
              map_option (\<lambda>v. js_plus v (js_uminus (ToNumber (map_of ?m (str x)))))
                (inventoryOf x (lessonsCollection db))"
          then have x: "x \<in> set objectIds" using member by simp
          have "inventoryOf x store = Some (Num (c - int (count_list ids (str x))))"
            using b cap line [OF x] by (simp add: ToNumber_def)
          then show ?thesis
            using enough [OF x] uniq ids by (simp add: store)
        qed
      qed
    qed
  qed
qed

lemma placeOrder_inventory:
  assumes uniq: "distinct (map lesson_id (lessonsCollection db))"
    and cap: "inventoryOf x (lessonsCollection db) = Some (Num c)"
    and nonneg: "0 \<le> c"
    and printed: "str x \<noteq> ''__proto__''"
    and canon: "\<forall>ids. lessonIDs r = Some ids \<longrightarrow> (\<forall>k\<in>set ids. (mk k = Some x) = (k = str x))"
    and run: "placeOrder mk str fault db r = (resp, db')"
  shows "distinct (map lesson_id (lessonsCollection db')) \<and>
         (\<exists>c'. inventoryOf x (lessonsCollection db') = Some (Num c') \<and> 0 \<le> c' \<and> c' \<le> c \<and>
               (isSaved resp \<longrightarrow> c' = c - int (unitsOf str x r)))"
proof (cases "missingField r \<or> lessonIDs r = None")
  case True
  with run have "db' = db" "resp = AllFieldsRequired"
    by (auto simp: placeOrder_def split: if_splits)
  then show ?thesis using uniq cap nonneg by simp
next
  case False
  then obtain ids where ids: "lessonIDs r = Some ids" by auto
  with False run have "reserveAndRecord mk str fault db r ids = (resp, db')"
    by (simp add: placeOrder_def)
  from reserveAndRecord_inventory [OF uniq cap nonneg printed _ this] canon ids
  show ?thesis by (simp add: unitsOf_def)
qed

lemma placeOrders_length:
  "placeOrders mk str db calls = (resps, db') \<Longrightarrow> length resps = length calls"
  by (induction calls arbitrary: db resps) (auto split: prod.splits)

section \<open>Facts about requests in flight\<close>

lemma decrementAll_None_fst: "decrementAll str m None i ls store = (ok, store') \<Longrightarrow> ok"
  using decrementAll_no_fault [of str m i ls store] by simp

lemma interleave_append:
  "interleave mk str (s1 @ s2) ts db =
     (case interleave mk str s1 ts db of (ts', db') \<Rightarrow> interleave mk str s2 ts' db')"
  by (induction s1 arbitrary: ts db) (auto split: prod.splits)

lemma interleave_Finished_at:
  "i < length ts \<Longrightarrow> ts ! i = Finished resp \<Longrightarrow>
   interleave mk str (replicate n i) ts db = (ts, db)"
proof (induction n)
  case 0
  show ?case by simp
next
  case (Suc n)
  have "ts[i := Finished resp] = ts"
    using Suc.prems by (metis list_update_id)
  then show ?case using Suc by simp
qed

lemma interleave_Updating_at:
  "i < length ts \<Longrightarrow> ts ! i = Updating r m objectIds lessons rest \<Longrightarrow> length rest < n \<Longrightarrow>
   interleave mk str (replicate n i) ts db =
     (ts[i := Finished (OrderSaved (length (ordersCollection db)))],
      db\<lparr>lessonsCollection := snd (decrementAll str m None j rest (lessonsCollection db)),
         ordersCollection := ordersCollection db @
           [makeOrder r objectIds (lessonNames str m lessons)]\<rparr>)"
proof (induction rest arbitrary: n db j ts)
  case Nil
  then obtain n' where "n = Suc n'" by (cases n) auto
  then show ?case
    using Nil.prems(1,2) by (simp add: interleave_Finished_at)
next
  case (Cons l rest)
  then obtain n' where n: "n = Suc n'" "length rest < n'" by (cases n) auto
  let ?ts = "ts[i := Updating r m objectIds lessons rest]"
  have "i < length ?ts" "?ts ! i = Updating r m objectIds lessons rest"
    using Cons.prems(1) by simp_all
  from Cons.IH [OF this n(2), of _ "Suc j"] show ?case
    using Cons.prems(1,2) by (simp add: n(1))
qed

text \<open>
  A request that runs alone, for as many steps as it has calls to make, ends with the
  response and the database of \<open>placeOrder\<close> without a fault.
\<close>

lemma interleave_Start_at:
  assumes i: "i < length ts" "ts ! i = Start r"
    and n: "length (lessonsCollection db) + 2 \<le> n"
  shows "interleave mk str (replicate n i) ts db =
           (ts[i := Finished (fst (placeOrder mk str None db r))],
            snd (placeOrder mk str None db r))"
proof -
  from n obtain n' where n': "n = Suc n'" "length (lessonsCollection db) < n'"
    by (cases n) auto
  have short: "length (find_in objectIds (lessonsCollection db)) < n'" for objectIds
    using n'(2) by (simp add: find_in_def le_less_trans [OF length_filter_le])
  show ?thesis
  proof (cases "startTask mk str db r")
    case (Start r')
    then show ?thesis
      by (simp add: startTask_def Let_def split: if_splits option.splits)
  next
    case (Finished resp)
    then have "placeOrder mk str None db r = (resp, db)"
      by (auto simp: startTask_def placeOrder_def reserveAndRecord_def Let_def
          split: if_splits option.splits)
    with Finished show ?thesis
      using i by (simp add: n'(1) interleave_Finished_at)
  next
    case (Updating r' m objectIds lessons rest)
    then have parts: "r' = r" "rest = lessons" "lessons = find_in objectIds (lessonsCollection db)"
      "\<not> missingField r" "\<exists>ids. lessonIDs r = Some ids \<and> m = buildCountMap ids \<and>
         newObjectIds mk (map fst m) = Some objectIds"
      "checkSpaces str m lessons = None"
      by (auto simp: startTask_def Let_def split: if_splits option.splits)
    obtain ok store where dec:
      "decrementAll str m None 1 lessons (lessonsCollection db) = (ok, store)"
      by (cases "decrementAll str m None 1 lessons (lessonsCollection db)")
    then have ok by (rule decrementAll_None_fst)
    have "placeOrder mk str None db r =
        (OrderSaved (length (ordersCollection db)),
         db\<lparr>lessonsCollection := store,
            ordersCollection := ordersCollection db @
              [makeOrder r objectIds (lessonNames str m lessons)]\<rparr>)"
      using parts dec \<open>ok\<close> by (auto simp: placeOrder_def reserveAndRecord_def Let_def)
    moreover
    let ?ts = "ts[i := Updating r m objectIds lessons lessons]"
    have "interleave mk str (replicate n' i) ?ts db =
        (?ts[i := Finished (OrderSaved (length (ordersCollection db)))],
         db\<lparr>lessonsCollection := store,
            ordersCollection := ordersCollection db @
              [makeOrder r objectIds (lessonNames str m lessons)]\<rparr>)"
      using interleave_Updating_at [of i ?ts r m objectIds lessons lessons n' mk str db 1]
        short dec i(1)
      by (simp add: parts(3))
    ultimately show ?thesis
      using Updating parts(1,2) i by (simp add: n'(1))
  qed
qed

lemma placeOrder_lessons_length:
  "length (lessonsCollection (snd (placeOrder mk str fault db r))) = length (lessonsCollection db)"
proof -
  have "length (snd (decrementAll str m fault i ls store)) = length store" for m i ls store
    using arg_cong [OF decrementAll_ids [of str m fault i ls store], of length] by simp
  then have "\<And>m i ls store ok store'. decrementAll str m fault i ls store = (ok, store') \<Longrightarrow>
      length store' = length store"
    by (metis snd_conv)
  then show ?thesis
    by (auto simp: placeOrder_def reserveAndRecord_def Let_def
        split: option.splits prod.splits bool.splits)
qed

text \<open>
  The schedule that serves the requests \<open>j, j + 1, ...\<close> one after the other, giving each
  \<open>n\<close> steps.
\<close>

lemma interleave_serial:
  assumes "length (lessonsCollection db) + 2 \<le> n"
  shows "length served = j \<Longrightarrow>
   interleave mk str (concat (map (replicate n) [j..<j + length rs])) (served @ map Start rs) db =
     (served @ map Finished (fst (placeOrders mk str db (map (Pair None) rs))),
      snd (placeOrders mk str db (map (Pair None) rs)))"
  using assms
proof (induction rs arbitrary: served j db)
  case Nil
  then show ?case by simp
next
  case (Cons r rs)
  let ?resp = "fst (placeOrder mk str None db r)"
  let ?db1 = "snd (placeOrder mk str None db r)"
  have first: "interleave mk str (replicate n j) (served @ map Start (r # rs)) db =
      ((served @ [Finished ?resp]) @ map Start rs, ?db1)"
    using interleave_Start_at [of j "served @ map Start (r # rs)" r db n mk str]
      Cons.prems by (simp add: nth_append list_update_append)
  have len: "length (lessonsCollection ?db1) + 2 \<le> n"
    using Cons.prems(2) by (simp add: placeOrder_lessons_length)
  have "[j..<Suc (j + length rs)] = j # [Suc j..<Suc (j + length rs)]"
    by (rule upt_conv_Cons) simp
  then show ?case
    using Cons.IH [of "served @ [Finished ?resp]" "Suc j" ?db1] Cons.prems(1) len first
    by (simp add: interleave_append split: prod.splits)
qed

section \<open>The order handler, one request at a time\<close>

text \<open>
  C1. PlaceOrder is not all-or-nothing across lines for every request. The count map
  is keyed by the identifiers as the request spells them (line 103), while the
  availability check looks a lesson up by \<^verbatim>\<open>lesson._id.toString()\<close> (line 110). For a line
  whose identifier is spelled otherwise than the store prints it (hexadecimal digits in
  upper case, which the constructor reads as the same \<^verbatim>\<open>ObjectId\<close>) the lesson is found
  but its count is \<^verbatim>\<open>undefined\<close>: the comparison of line 111 is false and the line is
  never refused. With A at 5 spaces and B at 2, the request for three of A and ten of
  B, B spelled in upper case, is answered with 200; A is decremented to 2, the
  inventory of B becomes \<^verbatim>\<open>NaN\<close>, and an order is recorded.
\<close>

theorem upper_case_line_not_refused:
  "placeOrder hexObjectId hexString None catalogue
     (customer [idA, idA, idA, idB_upper, idB_upper, idB_upper, idB_upper, idB_upper,
                idB_upper, idB_upper, idB_upper, idB_upper, idB_upper] 13) =
     (OrderSaved 0,
      \<lparr> lessonsCollection =
          [lessonA\<lparr>availableInventory := Num 2\<rparr>, lessonB\<lparr>availableInventory := NaN\<rparr>, lessonF],
        ordersCollection =
          [\<lparr> order_name = ''Ada'', order_phoneNumber = ''0123456789'',
             order_address = ''1 High St'', order_city = ''London'', order_state = ''LDN'',
             order_zip = ''N1'', order_lessonIDs = [idA, idB],
             order_lessonNames = [''French'', ''French'', ''French''],
             order_numberOfSpaces = 13 \<rparr>] \<rparr>) \<and>
   hexObjectId idB_upper = Some (lesson_id lessonB) \<and>
   availableInventory lessonA = Num 5 \<and> availableInventory lessonB = Num 2"
  by (simp add: handler_defs example_defs idB_upper_def)

text \<open>
  The check does what it is there for when the line names its lesson by the identifier
  as the store prints it: when the count map of a request has a line for a lesson \<open>b\<close>
  of the store, under the printed identifier \<open>k\<close> of \<open>b\<close>, whose count \<open>n\<close> exceeds the
  lesson's available inventory \<open>c\<close>, the request is answered with the refusal "Not
  enough spaces" and the database is left as it was, whatever the other lines ask for.
  (The request is complete, the constructor accepts each of its identifiers and the
  batch read itself does not fail.)
\<close>

lemma insufficient_line_reserves_nothing:
  assumes valid: "\<not> missingField r"
    and ids: "lessonIDs r = Some ids"
    and parse: "newObjectIds mk (map fst (buildCountMap ids)) = Some objectIds"
    and read: "fault \<noteq> Some 0"
    and item: "b \<in> set (lessonsCollection db)" "mk k = Some (lesson_id b)" "str (lesson_id b) = k"
    and line: "map_of (buildCountMap ids) k = Some n"
    and short: "availableInventory b = Num c" "c < int n"
  shows "\<exists>t n' a. placeOrder mk str fault db r = (NotEnoughSpaces t n' a, db)"
proof -
  have "k \<in> fst ` set (buildCountMap ids)"
    using line by (metis map_of_SomeD fst_conv image_eqI)
  then have "lesson_id b \<in> set objectIds"
    using parse item(2) by (force simp: newObjectIds_Some_iff)
  then have found: "b \<in> set (find_in objectIds (lessonsCollection db))"
    using item(1) by (simp add: find_in_def)
  have "js_less (availableInventory b) (ToNumber (needed str (buildCountMap ids) b))"
    using line short item(3) by (simp add: needed_def ToNumber_def)
  with found obtain t n' a where
    "checkSpaces str (buildCountMap ids) (find_in objectIds (lessonsCollection db)) =
       Some (NotEnoughSpaces t n' a)"
    using checkSpaces_Some by blast
  then show ?thesis
    using valid ids parse read by (simp add: placeOrder_def reserveAndRecord_def)
qed

text \<open>
  The example of the specification, every identifier spelled as printed: A has 5 spaces
  and B has 2; a request for three of A and ten of B is refused and the catalogue is
  unchanged.
\<close>

lemma insufficient_line_reserves_nothing_example:
  "\<exists>t n a. placeOrder hexObjectId hexString None catalogue
      (customer [idA, idA, idA, idB, idB, idB, idB, idB, idB, idB, idB, idB, idB] 13) =
    (NotEnoughSpaces t n a, catalogue)"
proof (rule insufficient_line_reserves_nothing
    [where b = lessonB and k = idB and n = 10 and c = 2 and objectIds = "[idA, idB]"])
  show "\<not> missingField (customer [idA, idA, idA, idB, idB, idB, idB, idB, idB, idB, idB, idB, idB] 13)"
    by (simp add: customer_valid)
  show "lessonIDs (customer [idA, idA, idA, idB, idB, idB, idB, idB, idB, idB, idB, idB, idB] 13) =
      Some [idA, idA, idA, idB, idB, idB, idB, idB, idB, idB, idB, idB, idB]"
    by (simp add: customer_def)
  show "newObjectIds hexObjectId
      (map fst (buildCountMap [idA, idA, idA, idB, idB, idB, idB, idB, idB, idB, idB, idB, idB])) =
      Some [idA, idB]"
    by (simp add: buildCountMap_keys example_defs)
  show "(None :: nat option) \<noteq> Some 0" by simp
  show "lessonB \<in> set (lessonsCollection catalogue)" by (simp add: catalogue_def)
  show "hexObjectId idB = Some (lesson_id lessonB)" by (simp add: example_defs)
  show "hexString (lesson_id lessonB) = idB" by (simp add: example_defs)
  show "map_of (buildCountMap [idA, idA, idA, idB, idB, idB, idB, idB, idB, idB, idB, idB, idB]) idB =
      Some 10"
    by (simp add: buildCountMap_map_of example_defs)
  show "availableInventory lessonB = Num 2" by (simp add: lessonB_def)
  show "(2::int) < int 10" by simp
qed

text \<open>
  C10. The validation of line 97 tests truthiness, not presence: a request in which a
  customer field is the empty string, or in which \<^verbatim>\<open>numberOfSpaces\<close> is 0, is answered
  with 400 "All fields are required." and nothing is read or written.
\<close>

theorem falsy_field_rejected:
  assumes "name r = Some [] \<or> phoneNumber r = Some [] \<or> address r = Some [] \<or>
           city r = Some [] \<or> state r = Some [] \<or> zip_code r = Some [] \<or>
           numberOfSpaces r = Some 0"
  shows "placeOrder mk str fault db r = (AllFieldsRequired, db)"
  using assms by (auto simp: placeOrder_def missingField_def falsy_str_def falsy_num_def)

theorem falsy_field_rejected_witness:
  "placeOrder hexObjectId hexString None catalogue (customer [idF] 0) =
     (AllFieldsRequired, catalogue)"
  using falsy_field_rejected [of "customer [idF] 0" hexObjectId hexString None catalogue]
  by (simp add: customer_def)

text \<open>
  C5. A request whose \<^verbatim>\<open>lessonIDs\<close> is the empty array is not refused: the empty array is
  truthy, the count map is empty, nothing is read back, and an order with no lesson is
  inserted and answered with 200.
\<close>

theorem empty_lessonIDs_saved:
  "placeOrder mk str None db (customer [] 1) =
     (OrderSaved (length (ordersCollection db)),
      db\<lparr>ordersCollection := ordersCollection db @
          [\<lparr> order_name = ''Ada'', order_phoneNumber = ''0123456789'',
             order_address = ''1 High St'', order_city = ''London'', order_state = ''LDN'',
             order_zip = ''N1'', order_lessonIDs = [], order_lessonNames = [],
             order_numberOfSpaces = 1 \<rparr>]\<rparr>)"
  by (simp add: placeOrder_def missingField_def falsy_str_def falsy_num_def falsy_arr_def
      reserveAndRecord_def buildCountMap_def find_in_def makeOrder_def customer_def)



text \<open>
  C3. A request that is not answered with success leaves no order behind, whatever goes
  wrong. The inventories are as they were when the answer is one of the two refusals
  (400), and when the answer is 500 because the constructor refused an identifier or
  because the batch read threw. Nothing is said here of a 500 caused by a later call:
  the decrements made before it stay (see the counterexample below).
\<close>

theorem failure_leaves_no_order:
  assumes "placeOrder mk str fault db r = (resp, db')"
  shows "(\<not> isSaved resp \<longrightarrow> ordersCollection db' = ordersCollection db) \<and>
         (resp = AllFieldsRequired \<or> (\<exists>t n a. resp = NotEnoughSpaces t n a) \<longrightarrow> db' = db) \<and>
         (resp = ServerError \<and> (fault = None \<or> fault = Some 0) \<longrightarrow> db' = db)"
proof -
  have none: "\<And>i ls store s. decrementAll str (m :: countMap) None i ls store \<noteq> (False, s)" for m
    using decrementAll_no_fault by (metis fst_conv)
  show ?thesis
    using assms none
    by (auto simp: placeOrder_def reserveAndRecord_def Let_def
        split: if_splits option.splits prod.splits bool.splits dest: checkSpaces_refusal)
qed

theorem failure_leaves_no_order_witness:
  "placeOrder hexObjectId hexString None catalogue (customer [idB, idB, idB] 3) =
     (NotEnoughSpaces ''Spanish'' (Num 3) (Num 2), catalogue)"
proof -
  obtain resp db' where
    run: "placeOrder hexObjectId hexString None catalogue (customer [idB, idB, idB] 3) = (resp, db')"
    by (cases "placeOrder hexObjectId hexString None catalogue (customer [idB, idB, idB] 3)")
  have resp: "resp = NotEnoughSpaces ''Spanish'' (Num 3) (Num 2)"
    using run
    by (simp add: placeOrder_def reserveAndRecord_def missingField_def falsy_str_def falsy_num_def
      falsy_arr_def customer_def buildCountMap_def lessonCount_def find_in_def needed_def
      ToNumber_def example_defs)
  have "db' = catalogue"
    using failure_leaves_no_order [OF run] resp by simp
  with run resp show ?thesis by simp
qed

text \<open>
  The claim as it stands fails: when \<^verbatim>\<open>insertOne\<close> throws (the call number 2 of a request
  for one lesson), the answer is 500 and the lesson has lost a space all the same.
\<close>

theorem failure_keeps_decrements_counterexample:
  "placeOrder hexObjectId hexString (Some 2) catalogue (customer [idF] 1) =
     (ServerError,
      \<lparr> lessonsCollection = [lessonA, lessonB, lessonF\<lparr>availableInventory := Num 4\<rparr>],
        ordersCollection = [] \<rparr>) \<and>
   inventoryOf idF (lessonsCollection catalogue) = Some (Num 5)"
  by (simp add: handler_defs inventoryOf_def example_defs)

text \<open>
  C4. An identifier of the request that the constructor accepts and that belongs to no
  lesson of the store is ignored: the answer and the inventories are those of the same
  request without that identifier. It is neither counted as a line without inventory
  nor a reason to refuse.
\<close>

theorem unknown_identifier_ignored:
  assumes ids: "lessonIDs r = Some ids"
    and obj: "mk k = Some u"
    and absent: "u \<notin> lesson_id ` set (lessonsCollection db)"
    and printed: "\<forall>l\<in>set (lessonsCollection db). str (lesson_id l) \<noteq> k"
  shows "fst (placeOrder mk str fault db r) =
           fst (placeOrder mk str fault db (r\<lparr>lessonIDs := Some (filter (\<lambda>j. j \<noteq> k) ids)\<rparr>)) \<and>
         lessonsCollection (snd (placeOrder mk str fault db r)) =
           lessonsCollection
             (snd (placeOrder mk str fault db (r\<lparr>lessonIDs := Some (filter (\<lambda>j. j \<noteq> k) ids)\<rparr>)))"
proof -
  let ?r' = "r\<lparr>lessonIDs := Some (filter (\<lambda>j. j \<noteq> k) ids)\<rparr>"
  have "missingField ?r' = missingField r"
    using ids by (simp add: missingField_def falsy_arr_def)
  then show ?thesis
    using ids obj absent printed
      reserveAndRecord_unknown [where mk = mk and k = k and u = u and db = db and str = str
        and fault = fault and r = r and ids = ids and r' = ?r']
    by (simp add: placeOrder_def)
qed

theorem unknown_identifier_ignored_witness:
  "fst (placeOrder hexObjectId hexString None catalogue (customer [idB, idX, idX] 3)) =
     fst (placeOrder hexObjectId hexString None catalogue (customer [idB] 3)) \<and>
   lessonsCollection (snd (placeOrder hexObjectId hexString None catalogue (customer [idB, idX, idX] 3))) =
     lessonsCollection (snd (placeOrder hexObjectId hexString None catalogue (customer [idB] 3)))"
proof -
  have a: "lessonIDs (customer [idB, idX, idX] 3) = Some [idB, idX, idX]"
    by (simp add: customer_def)
  have b: "hexObjectId idX = Some idX"
    by (simp add: example_defs)
  have c: "idX \<notin> lesson_id ` set (lessonsCollection catalogue)"
    by (simp add: example_defs)
  have d: "\<forall>l\<in>set (lessonsCollection catalogue). hexString (lesson_id l) \<noteq> idX"
    by (simp add: example_defs)
  have e: "(customer [idB, idX, idX] 3)\<lparr>lessonIDs := Some (filter (\<lambda>j. j \<noteq> idX) [idB, idX, idX])\<rparr> =
      customer [idB] 3"
    by (simp add: customer_def example_defs)
  show ?thesis
    using unknown_identifier_ignored
      [where r = "customer [idB, idX, idX] 3" and ids = "[idB, idX, idX]" and mk = hexObjectId
        and k = idX and u = idX and db = catalogue and str = hexString and fault = None]
      a b c d
    unfolding e by blast
qed

text \<open>
  The claim as it stands fails: a request for one space of B and two of an identifier
  that no lesson has is answered with success, and B is decremented.
\<close>

theorem unknown_identifier_saved_counterexample:
  "placeOrder hexObjectId hexString None catalogue (customer [idB, idX, idX] 3) =
     (OrderSaved 0,
      \<lparr> lessonsCollection = [lessonA, lessonB\<lparr>availableInventory := Num 1\<rparr>, lessonF],
        ordersCollection = [makeOrder (customer [idB, idX, idX] 3) [idB, idX] [''Spanish'']] \<rparr>) \<and>
   idX \<notin> lesson_id ` set (lessonsCollection catalogue)"
  by (simp add: handler_defs example_defs)




text \<open>
  C7. The identifiers of the order inserted by a successful request are the identifiers
  of the request without repetition, in the order of their first occurrence, each as
  the constructor reads it: whether a lesson with that identifier exists plays no part.
\<close>

theorem order_lessonIDs_all_requested:
  assumes run: "placeOrder mk str fault db r = (OrderSaved n, db')"
    and ids: "lessonIDs r = Some ids"
  shows "map Some (order_lessonIDs (ordersCollection db' ! n)) =
           map mk (rev (remdups (rev (filter (\<lambda>k. k \<noteq> ''__proto__'') ids))))"
proof -
  from placeOrder_saved [OF run ids] obtain objectIds store where
    parse: "newObjectIds mk (map fst (buildCountMap ids)) = Some objectIds"
    and n: "n = length (ordersCollection db)"
    and db': "db' = db\<lparr>lessonsCollection := store,
               ordersCollection := ordersCollection db @
                 [makeOrder r objectIds
                    (lessonNames str (buildCountMap ids)
                       (find_in objectIds (lessonsCollection db)))]\<rparr>"
    by blast
  have "order_lessonIDs (ordersCollection db' ! n) = objectIds"
    by (simp add: db' n makeOrder_def)
  moreover have "map Some objectIds = map mk (map fst (buildCountMap ids))"
    using parse unfolding newObjectIds_Some_iff by auto
  ultimately show ?thesis
    by (simp add: buildCountMap_keys)
qed

theorem order_lessonIDs_all_requested_witness:
  "map Some (order_lessonIDs
     (ordersCollection (snd (placeOrder hexObjectId hexString None catalogue
        (customer [idB, idX, idB] 2))) ! 0)) = [Some idB, Some idX]"
proof -
  let ?r = "customer [idB, idX, idB] 2"
  have run: "placeOrder hexObjectId hexString None catalogue ?r =
      (OrderSaved 0, snd (placeOrder hexObjectId hexString None catalogue ?r))"
    by (simp add: handler_defs example_defs)
  have ids: "lessonIDs ?r = Some [idB, idX, idB]"
    by (simp add: customer_def)
  show ?thesis
    using order_lessonIDs_all_requested [OF run ids]
    by (simp add: example_defs)
qed

text \<open>
  The claim as it stands fails: an identifier that no lesson has is recorded in the
  order.
\<close>

theorem order_lessonIDs_unknown_counterexample:
  "fst (placeOrder hexObjectId hexString None catalogue (customer [idA, idX, idA] 3)) = OrderSaved 0 \<and>
   order_lessonIDs
     (ordersCollection (snd (placeOrder hexObjectId hexString None catalogue
        (customer [idA, idX, idA] 3))) ! 0) = [idA, idX] \<and>
   idX \<notin> lesson_id ` set (lessonsCollection catalogue)"
  by (simp add: handler_defs example_defs)

section \<open>The order handler, several requests\<close>

text \<open>
  C2. No oversell, for requests served one after the other. In a store with unique
  identifiers, let the lesson \<open>x\<close> have \<open>c \<ge> 0\<close> spaces, and let the requests name \<open>x\<close>
  by its printed identifier and by no other string. After any sequence of requests,
  each with any fault, the lesson has \<open>c' \<ge> 0\<close> spaces and the units of \<open>x\<close> held by
  the requests answered with success are at most \<open>c - c'\<close>, hence at most \<open>c\<close>.
\<close>

theorem sequential_no_oversell:
  assumes uniq: "distinct (map lesson_id (lessonsCollection db))"
    and cap: "inventoryOf x (lessonsCollection db) = Some (Num c)"
    and nonneg: "0 \<le> c"
    and printed: "str x \<noteq> ''__proto__''"
    and canon: "\<forall>call\<in>set calls. \<forall>ids. lessonIDs (snd call) = Some ids \<longrightarrow>
                  (\<forall>k\<in>set ids. (mk k = Some x) = (k = str x))"
    and run: "placeOrders mk str db calls = (resps, db')"
  shows "\<exists>c'. inventoryOf x (lessonsCollection db') = Some (Num c') \<and> 0 \<le> c' \<and>
              int (reservedUnits str x (zip resps (map snd calls))) \<le> c - c'"
  using uniq cap nonneg canon run
proof (induction calls arbitrary: db c resps)
  case Nil
  then show ?case by simp
next
  case (Cons call calls)
  obtain fault r where call: "call = (fault, r)" by (cases call)
  obtain resp db1 where first: "placeOrder mk str fault db r = (resp, db1)"
    by (cases "placeOrder mk str fault db r")
  obtain rest where rest: "placeOrders mk str db1 calls = (rest, db')" and resps: "resps = resp # rest"
    using Cons.prems(5) call first by (auto split: prod.splits)
  have canon1: "\<forall>ids. lessonIDs r = Some ids \<longrightarrow> (\<forall>k\<in>set ids. (mk k = Some x) = (k = str x))"
    using Cons.prems(4) call by simp
  from placeOrder_inventory [OF Cons.prems(1,2,3) printed canon1 first]
  obtain c1 where uniq1: "distinct (map lesson_id (lessonsCollection db1))"
    and cap1: "inventoryOf x (lessonsCollection db1) = Some (Num c1)"
    and c1: "0 \<le> c1" "c1 \<le> c" "isSaved resp \<longrightarrow> c1 = c - int (unitsOf str x r)"
    by blast
  have canon': "\<forall>call\<in>set calls. \<forall>ids. lessonIDs (snd call) = Some ids \<longrightarrow>
                  (\<forall>k\<in>set ids. (mk k = Some x) = (k = str x))"
    using Cons.prems(4) by simp
  from Cons.IH [OF uniq1 cap1 c1(1) canon' rest]
  obtain c' where c': "inventoryOf x (lessonsCollection db') = Some (Num c')" "0 \<le> c'"
    "int (reservedUnits str x (zip rest (map snd calls))) \<le> c1 - c'"
    by blast
  have "int (reservedUnits str x (zip resps (map snd (call # calls)))) \<le> c - c'"
    using c'(3) c1 by (auto simp: resps call)
  with c'(1,2) show ?case by blast
qed

theorem sequential_no_oversell_witness:
  "\<exists>c'. inventoryOf idB (lessonsCollection (snd (placeOrders hexObjectId hexString catalogue
             [(None, customer [idB, idB] 2), (None, customer [idB] 1)]))) = Some (Num c') \<and>
        0 \<le> c' \<and>
        int (reservedUnits hexString idB
          (zip (fst (placeOrders hexObjectId hexString catalogue
                  [(None, customer [idB, idB] 2), (None, customer [idB] 1)]))
             (map snd [(None :: nat option, customer [idB, idB] 2), (None, customer [idB] 1)])))
          \<le> 2 - c'"
proof (rule sequential_no_oversell [where mk = hexObjectId and db = catalogue])
  show "distinct (map lesson_id (lessonsCollection catalogue))"
    by (simp add: example_defs)
  show "inventoryOf idB (lessonsCollection catalogue) = Some (Num 2)"
    by (simp add: inventoryOf_def example_defs)
  show "(0::int) \<le> 2" by simp
  show "hexString idB \<noteq> ''__proto__''" by (simp add: example_defs)
  show "\<forall>call\<in>set [(None, customer [idB, idB] 2), (None, customer [idB] 1)].
      \<forall>ids. lessonIDs (snd call) = Some ids \<longrightarrow>
        (\<forall>k\<in>set ids. (hexObjectId k = Some idB) = (k = hexString idB))"
    by (simp add: customer_def example_defs)
  show "placeOrders hexObjectId hexString catalogue
      [(None, customer [idB, idB] 2), (None, customer [idB] 1)] =
    (fst (placeOrders hexObjectId hexString catalogue
           [(None, customer [idB, idB] 2), (None, customer [idB] 1)]),
     snd (placeOrders hexObjectId hexString catalogue
           [(None, customer [idB, idB] 2), (None, customer [idB] 1)]))"
    by simp
qed

text \<open>
  The claim as it stands, for requests in flight at the same time, fails: B has 2
  spaces; one request asks for two of B and another for one; both read the store before
  either decrements. Both are answered with success, 3 units are held and B is left
  with -1 spaces.
\<close>

theorem concurrent_oversell_counterexample:
  "fst (interleave hexObjectId hexString [0, 1, 0, 1, 0, 1]
      [Start (customer [idB, idB] 2), Start (customer [idB] 1)] catalogue) =
     [Finished (OrderSaved 0), Finished (OrderSaved 1)] \<and>
   inventoryOf idB (lessonsCollection catalogue) = Some (Num 2) \<and>
   inventoryOf idB (lessonsCollection (snd (interleave hexObjectId hexString [0, 1, 0, 1, 0, 1]
      [Start (customer [idB, idB] 2), Start (customer [idB] 1)] catalogue))) = Some (Num (- 1)) \<and>
   reservedUnits hexString idB
     [(OrderSaved 0, customer [idB, idB] 2), (OrderSaved 1, customer [idB] 1)] = 3"
  by (simp add: startTask_def Let_def handler_defs example_defs inventoryOf_def unitsOf_def)

end
